theory Spec2Isabelle
  imports Main "HOL-Library.FSet" "HOL-Library.Char_ord" "HOL-Library.List_Lexorder"
begin

section \<open>Data model of \<^verbatim>\<open>Demo_02.cpp\<close>\<close>

text \<open>
  \<^verbatim>\<open>struct Token { int line; string type; string value; }\<close>.  No arithmetic is done
  on \<open>line\<close>: it is only compared with 0 and printed, so it is an \<open>int\<close>.
\<close>

record Token =
  line :: int
  type :: string
  "value" :: string

text \<open>\<^verbatim>\<open>struct GrammarRule { string lhs; vector<string> rhs; }\<close>\<close>

record GrammarRule =
  lhs :: string
  rhs :: "string list"

text \<open>
  The private members of \<^verbatim>\<open>class LL1Parser\<close>.  A \<^verbatim>\<open>set<string>\<close> is a finite set.
  \<open>firstSet\<close> and \<open>followSet\<close> are \<^verbatim>\<open>map<string, set<string>>\<close> that the program
  reads and writes through \<^verbatim>\<open>operator[]\<close> only, which yields the default-constructed
  empty set for a key that was never written; nothing ever asks whether a key is
  present.  They are therefore total functions, \<open>{||}\<close> wherever nothing was stored.
  \<open>parseTable\<close> is searched with \<^verbatim>\<open>find\<close>, so it is a partial map.
\<close>

record LL1Parser =
  grammar :: "GrammarRule list"
  terminals :: "string fset"
  nonTerminals :: "string fset"
  firstSet :: "string \<Rightarrow> string fset"
  followSet :: "string \<Rightarrow> string fset"
  parseTable :: "string \<times> string \<rightharpoonup> GrammarRule"
  startSymbol :: string

text \<open>The state of a freshly constructed \<^verbatim>\<open>LL1Parser parser;\<close> (every member empty).\<close>

definition new_parser :: LL1Parser where
  "new_parser = \<lparr>grammar = [], terminals = {||}, nonTerminals = {||},
     firstSet = (\<lambda>_. {||}), followSet = (\<lambda>_. {||}), parseTable = Map.empty,
     startSymbol = []\<rparr>"

section \<open>Loading the grammar\<close>

text \<open>
  \<^verbatim>\<open>isspace\<close> and \<^verbatim>\<open>isupper\<close> in the "C" locale (the program never calls
  \<^verbatim>\<open>setlocale\<close>): the six white-space bytes, and the letters A to Z.
\<close>

definition isspace :: "char \<Rightarrow> bool" where
  "isspace c = (c \<in> set [CHR 0x20, CHR 0x09, CHR 0x0A, CHR 0x0B, CHR 0x0C, CHR 0x0D])"

definition isupper :: "char \<Rightarrow> bool" where
  "isupper c = (65 \<le> (of_char c :: nat) \<and> (of_char c :: nat) \<le> 90)"

text \<open>
  \<^verbatim>\<open>split\<close>: \<^verbatim>\<open>while (ss >> token) out.push_back(token)\<close>, the maximal runs of
  non-space characters of the line, in order.  \<open>cur\<close> is the token being read.
\<close>

fun split_from :: "string \<Rightarrow> string \<Rightarrow> string list" where
  "split_from cur [] = (if cur = [] then [] else [cur])"
| "split_from cur (c # cs) =
     (if isspace c then (if cur = [] then split_from [] cs else cur # split_from [] cs)
      else split_from (cur @ [c]) cs)"

definition split :: "string \<Rightarrow> string list" where
  "split ln = split_from [] ln"

text \<open>
  \<^verbatim>\<open>sym[0]\<close> of a \<^verbatim>\<open>std::string\<close>: the first character, and the terminating NUL
  for the empty string.
\<close>

definition first_char :: "string \<Rightarrow> char" where
  "first_char symb = (case symb of [] \<Rightarrow> CHR 0x00 | c # _ \<Rightarrow> c)"

text \<open>The body of \<^verbatim>\<open>for (const string& sym : rule.rhs)\<close> in \<^verbatim>\<open>loadGrammar\<close>.\<close>

definition classify :: "string \<Rightarrow> LL1Parser \<Rightarrow> LL1Parser" where
  "classify symb p =
     (if \<not> isupper (first_char symb) then p\<lparr>terminals := finsert symb (terminals p)\<rparr>
      else p\<lparr>nonTerminals := finsert symb (nonTerminals p)\<rparr>)"

text \<open>
  The body of the \<^verbatim>\<open>while (getline(infile, line))\<close> loop for one line of the grammar
  file.
\<close>

definition load_line :: "string \<Rightarrow> LL1Parser \<Rightarrow> LL1Parser" where
  "load_line ln p =
     (if ln = [] then p
      else let parts = split ln in
        if length parts < 3 \<or> parts ! 1 \<noteq> ''->'' then p
        else let rule = \<lparr>lhs = parts ! 0, rhs = drop 2 parts\<rparr>;
                 p1 = p\<lparr>grammar := grammar p @ [rule]\<rparr>;
                 p2 = p1\<lparr>nonTerminals := finsert (lhs rule) (nonTerminals p1)\<rparr>;
                 p3 = fold classify (rhs rule) p2
             in if startSymbol p3 = [] then p3\<lparr>startSymbol := lhs rule\<rparr> else p3)"

text \<open>\<^verbatim>\<open>loadGrammar\<close>, on the lines of the grammar file in file order.\<close>

definition loadGrammar :: "string list \<Rightarrow> LL1Parser \<Rightarrow> LL1Parser" where
  "loadGrammar lns p = fold load_line lns p"

section \<open>FIRST sets\<close>

definition isTerminal :: "LL1Parser \<Rightarrow> string \<Rightarrow> bool" where
  "isTerminal p symbol = (symbol |\<in>| terminals p)"

text \<open>
  The loop of \<^verbatim>\<open>computeFirstOf\<close>; \<open>first\<close> is the local set being filled, and each
  \<^verbatim>\<open>break\<close> returns it.
\<close>

fun computeFirstOf_loop :: "LL1Parser \<Rightarrow> string list \<Rightarrow> string fset \<Rightarrow> string fset" where
  "computeFirstOf_loop p [] first = first"
| "computeFirstOf_loop p (symbol # symbols) first =
     (if isTerminal p symbol then finsert symbol first
      else let firstOfNonTerminal = firstSet p symbol;
               first' = first |\<union>| firstOfNonTerminal
           in if ''epsilon'' |\<notin>| firstOfNonTerminal then first'
              else computeFirstOf_loop p symbols first')"

definition computeFirstOf :: "LL1Parser \<Rightarrow> string list \<Rightarrow> string fset" where
  "computeFirstOf p symbols = computeFirstOf_loop p symbols {||}"

text \<open>
  The body of \<^verbatim>\<open>for (const GrammarRule& rule : grammar)\<close> in \<^verbatim>\<open>computeFirst\<close>, on
  the parser state and the flag \<open>changed\<close>.
\<close>

fun first_step :: "GrammarRule \<Rightarrow> LL1Parser \<times> bool \<Rightarrow> LL1Parser \<times> bool" where
  "first_step rule (p, changed) =
     (let firstOfLHS = firstSet p (lhs rule);
          firstOfRHS = computeFirstOf p (rhs rule);
          oldSize = fcard firstOfLHS;
          firstOfLHS' = firstOfLHS |\<union>| firstOfRHS;
          p' = p\<lparr>firstSet := (firstSet p)(lhs rule := firstOfLHS')\<rparr>
      in (p', if fcard firstOfLHS' > oldSize then True else changed))"

text \<open>One run of the body of \<^verbatim>\<open>while (changed)\<close>: \<open>changed = false\<close>, then every rule.\<close>

definition first_pass :: "LL1Parser \<Rightarrow> LL1Parser \<times> bool" where
  "first_pass p = fold first_step (grammar p) (p, False)"

text \<open>
  \<^verbatim>\<open>computeFirst\<close>: \<open>changed\<close> starts true, so the body runs once and then again for
  as long as a pass sets the flag.
\<close>

function computeFirst :: "LL1Parser \<Rightarrow> LL1Parser" where
  "computeFirst p =
     (case first_pass p of (p', changed) \<Rightarrow> if changed then computeFirst p' else p')"
  by pat_completeness auto

text \<open>The same loop, stopped with \<open>None\<close> when it would start more than \<open>n\<close> passes.\<close>

fun computeFirst_fuel :: "nat \<Rightarrow> LL1Parser \<Rightarrow> LL1Parser option" where
  "computeFirst_fuel 0 p = None"
| "computeFirst_fuel (Suc n) p =
     (case first_pass p of (p', changed) \<Rightarrow>
        if changed then computeFirst_fuel n p' else Some p')"

section \<open>FOLLOW sets\<close>

text \<open>
  The body of \<^verbatim>\<open>for (size_t i = 0; i < rule.rhs.size(); ++i)\<close> in
  \<^verbatim>\<open>computeFollowOf\<close>; \<open>follow\<close> is the local set being filled.
\<close>

definition followOf_step ::
  "LL1Parser \<Rightarrow> string \<Rightarrow> GrammarRule \<Rightarrow> nat \<Rightarrow> string fset \<Rightarrow> string fset" where
  "followOf_step p nonTerminal rule i follow =
     (if rhs rule ! i = nonTerminal then
        (if i + 1 < length (rhs rule) then
           let firstOfNext = computeFirstOf p (drop (i + 1) (rhs rule));
               follow' = follow |\<union>| firstOfNext
           in if ''epsilon'' |\<in>| firstOfNext then follow' |\<union>| followSet p (lhs rule)
              else follow'
         else follow |\<union>| followSet p (lhs rule))
      else follow)"

definition computeFollowOf :: "LL1Parser \<Rightarrow> string \<Rightarrow> string fset" where
  "computeFollowOf p nonTerminal =
     fold (\<lambda>rule. fold (followOf_step p nonTerminal rule) [0..<length (rhs rule)])
       (grammar p)
       (if nonTerminal = startSymbol p then {|''$''|} else {||})"

text \<open>The body of the inner loop of \<^verbatim>\<open>computeFollow\<close>, for position \<open>i\<close> of \<open>rule\<close>.\<close>

fun follow_step :: "GrammarRule \<Rightarrow> nat \<Rightarrow> LL1Parser \<times> bool \<Rightarrow> LL1Parser \<times> bool" where
  "follow_step rule i (p, changed) =
     (if rhs rule ! i |\<in>| nonTerminals p then
        let followOfRHS = computeFollowOf p (rhs rule ! i);
            oldSize = fcard (followSet p (rhs rule ! i));
            p' = p\<lparr>followSet :=
                   (followSet p)(rhs rule ! i := followSet p (rhs rule ! i) |\<union>| followOfRHS)\<rparr>
        in (p', if fcard (followSet p' (rhs rule ! i)) > oldSize then True else changed)
      else (p, changed))"

definition follow_rule :: "GrammarRule \<Rightarrow> LL1Parser \<times> bool \<Rightarrow> LL1Parser \<times> bool" where
  "follow_rule rule st = fold (follow_step rule) [0..<length (rhs rule)] st"

definition follow_pass :: "LL1Parser \<Rightarrow> LL1Parser \<times> bool" where
  "follow_pass p = fold follow_rule (grammar p) (p, False)"

function computeFollow :: "LL1Parser \<Rightarrow> LL1Parser" where
  "computeFollow p =
     (case follow_pass p of (p', changed) \<Rightarrow> if changed then computeFollow p' else p')"
  by pat_completeness auto

fun computeFollow_fuel :: "nat \<Rightarrow> LL1Parser \<Rightarrow> LL1Parser option" where
  "computeFollow_fuel 0 p = None"
| "computeFollow_fuel (Suc n) p =
     (case follow_pass p of (p', changed) \<Rightarrow>
        if changed then computeFollow_fuel n p' else Some p')"

section \<open>The parse table\<close>

text \<open>
  \<^verbatim>\<open>parseTable[{rule.lhs, terminal}] = rule\<close>, and the body of
  \<^verbatim>\<open>for (const GrammarRule& rule : grammar)\<close> in \<^verbatim>\<open>buildParseTable\<close>.  A
  \<^verbatim>\<open>set<string>\<close> is iterated in ascending order.
\<close>

definition put_entry :: "GrammarRule \<Rightarrow> string \<Rightarrow> LL1Parser \<Rightarrow> LL1Parser" where
  "put_entry rule terminal p =
     p\<lparr>parseTable := (parseTable p)((lhs rule, terminal) \<mapsto> rule)\<rparr>"

definition build_step :: "GrammarRule \<Rightarrow> LL1Parser \<Rightarrow> LL1Parser" where
  "build_step rule p =
     (let firstOfRHS = computeFirstOf p (rhs rule);
          p1 = fold (\<lambda>terminal q. if terminal \<noteq> ''epsilon'' then put_entry rule terminal q else q)
                 (sorted_list_of_fset firstOfRHS) p
      in if ''epsilon'' |\<in>| firstOfRHS
         then let followOfLHS = followSet p1 (lhs rule)
              in fold (put_entry rule) (sorted_list_of_fset followOfLHS) p1
         else p1)"

definition buildParseTable :: "LL1Parser \<Rightarrow> LL1Parser" where
  "buildParseTable p = fold build_step (grammar p) p"

text \<open>
  The lookaheads under which \<open>rule\<close> claims a table entry (section 4.4 of the
  specification): the members of the FIRST set of its right-hand side other than the
  epsilon marker and, when that set holds the epsilon marker, the FOLLOW set of its
  left-hand side.
\<close>

definition table_entries :: "LL1Parser \<Rightarrow> GrammarRule \<Rightarrow> string fset" where
  "table_entries p rule =
     ffilter (\<lambda>t. t \<noteq> ''epsilon'') (computeFirstOf p (rhs rule)) |\<union>|
     (if ''epsilon'' |\<in>| computeFirstOf p (rhs rule) then followSet p (lhs rule) else {||})"

section \<open>The parser\<close>

text \<open>\<^verbatim>\<open>errFile << n\<close> for an \<^verbatim>\<open>int\<close>: decimal digits, with a minus sign when negative.\<close>

fun digits :: "nat \<Rightarrow> string" where
  "digits n =
     (if n < 10 then [''0123456789'' ! n]
      else digits (n div 10) @ [''0123456789'' ! (n mod 10)])"

declare digits.simps [simp del]

definition show_int :: "int \<Rightarrow> string" where
  "show_int i = (if i < 0 then CHR ''-'' # digits (nat (- i)) else digits (nat i))"

text \<open>The two diagnostic lines; \<open>CHR 0x27\<close> is the single quote, \<open>CHR 0x0A\<close> the newline.\<close>

definition mismatch_diag :: "Token list \<Rightarrow> nat \<Rightarrow> string \<Rightarrow> string" where
  "mismatch_diag input index top' =
     ''Syntax error at line '' @ show_int (line (input ! index)) @ '': expected '' @ [CHR 0x27]
       @ top' @ [CHR 0x27] @ '' but found '' @ [CHR 0x27] @ value (input ! index)
       @ [CHR 0x27, CHR 0x0A]"

definition no_entry_diag :: "Token list \<Rightarrow> nat \<Rightarrow> string" where
  "no_entry_diag input index =
     ''Syntax error at line ''
       @ show_int (if line (input ! index) < 0 then line (input ! (index - 1))
                   else line (input ! index))
       @ '': unexpected token '' @ [CHR 0x27]
       @ (if value (input ! index) = ''$'' then value (input ! (index - 1))
          else value (input ! index))
       @ [CHR 0x27, CHR 0x0A]"

text \<open>
  What a run of \<^verbatim>\<open>parseTokens\<close> leaves behind: the value returned, the text written to
  \<^verbatim>\<open>errFile\<close> and the text written to \<^verbatim>\<open>cout\<close>.  A read of \<^verbatim>\<open>input\<close> outside the
  vector is undefined behaviour in C++ and is the fault \<open>OutOfRange\<close> here.
\<close>

datatype fault = OutOfRange

record outcome =
  returned :: bool
  errFile :: string
  cout :: string

text \<open>
  \<^verbatim>\<open>for (auto it = rule.rhs.rbegin(); ...) if (*it != "epsilon") parseStack.push(*it)\<close>;
  the stack is a list with its top first.
\<close>

definition push_rhs :: "string list \<Rightarrow> string list \<Rightarrow> string list" where
  "push_rhs symbols parseStack =
     fold (\<lambda>s st. if s \<noteq> ''epsilon'' then s # st else st) (rev symbols) parseStack"

text \<open>
  The loop \<^verbatim>\<open>while (!parseStack.empty())\<close> of \<^verbatim>\<open>parseTokens\<close>.  It need not end (a
  left-recursive rule is expanded for ever), so the result is an option and \<open>None\<close>
  stands for a run that does not return.  In the no-entry branch
  \<^verbatim>\<open>input[index - 1]\<close> is read when the current line is negative or the current
  literal is \<^verbatim>\<open>"$"\<close>; with \<open>index = 0\<close> that read is outside the vector.
\<close>

partial_function (option) parseLoop ::
  "LL1Parser \<Rightarrow> Token list \<Rightarrow> string list \<Rightarrow> nat \<Rightarrow> (fault + outcome) option" where
  "parseLoop p input parseStack index =
     (case parseStack of
        [] \<Rightarrow> Some (Inr \<lparr>returned = False, errFile = [], cout = []\<rparr>)
      | top' # rest \<Rightarrow>
          if length input \<le> index then Some (Inl OutOfRange)
          else if top' = ''$'' \<and> type (input ! index) = ''$'' then
            Some (Inr \<lparr>returned = True, errFile = [], cout = ''YES'' @ [CHR 0x0A]\<rparr>)
          else if top' = type (input ! index) then parseLoop p input rest (index + 1)
          else if isTerminal p top' then
            Some (Inr \<lparr>returned = False, errFile = mismatch_diag input index top',
                       cout = ''NO'' @ [CHR 0x0A]\<rparr>)
          else
            (case parseTable p (top', type (input ! index)) of
               None \<Rightarrow>
                 if index = 0 \<and> (line (input ! index) < 0 \<or> value (input ! index) = ''$'')
                 then Some (Inl OutOfRange)
                 else Some (Inr \<lparr>returned = False, errFile = no_entry_diag input index,
                                 cout = ''NO'' @ [CHR 0x0A]\<rparr>)
             | Some rule \<Rightarrow> parseLoop p input (push_rhs (rhs rule) rest) index))"

text \<open>
  \<^verbatim>\<open>parseTokens\<close>: the stack holds \<^verbatim>\<open>"$"\<close> below the start symbol, and the token
  \<^verbatim>\<open>{ -1, "$", "$" }\<close> is appended to the input.
\<close>

definition parseTokens :: "LL1Parser \<Rightarrow> Token list \<Rightarrow> (fault + outcome) option" where
  "parseTokens p tokens =
     parseLoop p (tokens @ [\<lparr>line = - 1, type = ''$'', value = ''$''\<rparr>])
       [startSymbol p, ''$''] 0"

text \<open>
  \<^verbatim>\<open>main\<close>: the four analysis stages on a fresh parser, then the parse; \<open>lns\<close> are
  the lines of the grammar file and \<open>tokens\<close> the tokens read from the token file.
\<close>

definition analyse :: "string list \<Rightarrow> LL1Parser" where
  "analyse lns = buildParseTable (computeFollow (computeFirst (loadGrammar lns new_parser)))"

definition main :: "string list \<Rightarrow> Token list \<Rightarrow> (fault + outcome) option" where
  "main lns tokens = parseTokens (analyse lns) tokens"

text \<open>
  The diagnostic of the no-entry case as the specification words it: the line and the
  literal are both those of the previous token exactly when the current token is the
  appended end-of-input token (the last element of \<open>input\<close>), and both those of the
  current token otherwise.
\<close>

definition no_entry_diag_claimed :: "Token list \<Rightarrow> nat \<Rightarrow> string" where
  "no_entry_diag_claimed input index =
     (let tok = (if index + 1 = length input then input ! (index - 1) else input ! index)
      in ''Syntax error at line '' @ show_int (line tok) @ '': unexpected token '' @ [CHR 0x27]
           @ value tok @ [CHR 0x27, CHR 0x0A])"

section \<open>Auxiliary notions for the proofs\<close>

text \<open>
  The symbols on right-hand sides, and the classification that \<open>loadGrammar\<close>
  maintains: by the case of the first character.
\<close>

definition rhs_symbols :: "GrammarRule list \<Rightarrow> string set" where
  "rhs_symbols g = \<Union> (set ` rhs ` set g)"

definition classified :: "LL1Parser \<Rightarrow> bool" where
  "classified p \<longleftrightarrow>
     fset (terminals p) = {s \<in> rhs_symbols (grammar p). \<not> isupper (first_char s)} \<and>
     fset (nonTerminals p) =
       lhs ` set (grammar p) \<union> {s \<in> rhs_symbols (grammar p). isupper (first_char s)}"

text \<open>
  For the termination of the two fixed-point loops: every symbol of the grammar, the
  finite universe that bounds every stored FIRST set (the symbols and whatever the
  stored sets of those symbols hold already), and the pairs of a symbol and an
  element of the universe still missing from that symbol's stored set.  A pass that
  sets \<open>changed\<close> removes at least one pair.  The same for FOLLOW, whose universe
  also holds the end marker and the FIRST universe.
\<close>

definition grammar_symbols :: "GrammarRule list \<Rightarrow> string set" where
  "grammar_symbols g = lhs ` set g \<union> rhs_symbols g"

definition first_universe :: "LL1Parser \<Rightarrow> string set" where
  "first_universe p =
     grammar_symbols (grammar p) \<union> (\<Union>s \<in> grammar_symbols (grammar p). fset (firstSet p s))"

definition first_gap :: "LL1Parser \<Rightarrow> (string \<times> string) set" where
  "first_gap p =
     {(s, x). s \<in> grammar_symbols (grammar p) \<and> x \<in> first_universe p \<and> x |\<notin>| firstSet p s}"

definition follow_universe :: "LL1Parser \<Rightarrow> string set" where
  "follow_universe p =
     insert ''$'' (first_universe p) \<union> (\<Union>s \<in> grammar_symbols (grammar p). fset (followSet p s))"

definition follow_gap :: "LL1Parser \<Rightarrow> (string \<times> string) set" where
  "follow_gap p =
     {(s, x). s \<in> grammar_symbols (grammar p) \<and> x \<in> follow_universe p \<and> x |\<notin>| followSet p s}"

text \<open>
  What one step, and so one pass, of either loop does to the state and the flag: the
  grammar is kept, the stored sets \<open>X\<close> only grow, the measure \<open>m\<close> does not
  increase and decreases when the flag is newly set, and a flag left unset means the
  state is unchanged.
\<close>

definition progress ::
  "(LL1Parser \<Rightarrow> string \<Rightarrow> string fset) \<Rightarrow> (LL1Parser \<Rightarrow> nat) \<Rightarrow>
   LL1Parser \<times> bool \<Rightarrow> LL1Parser \<times> bool \<Rightarrow> bool" where
  "progress X m st st' \<longleftrightarrow>
     grammar (fst st') = grammar (fst st) \<and>
     (\<forall>s. X (fst st) s |\<subseteq>| X (fst st') s) \<and>
     m (fst st') \<le> m (fst st) \<and>
     (snd st' \<and> \<not> snd st \<longrightarrow> m (fst st') < m (fst st)) \<and>
     (\<not> snd st' \<longrightarrow> st' = st)"

text \<open>
  Prefixes of the two iterations: the state after \<open>k\<close> runs of the body of the
  \<^verbatim>\<open>while\<close> loop followed by the first \<open>m\<close> steps of the next run.  A step of
  \<open>computeFirst\<close> handles one rule; a step of \<open>computeFollow\<close> handles one position
  of one rule's right-hand side, \<open>follow_positions\<close> listing them in loop order.
\<close>

definition first_prefix :: "nat \<Rightarrow> nat \<Rightarrow> LL1Parser \<Rightarrow> LL1Parser" where
  "first_prefix k m p =
     (let q = ((\<lambda>q. fst (first_pass q)) ^^ k) p
      in fst (fold first_step (take m (grammar q)) (q, False)))"

definition follow_positions :: "GrammarRule list \<Rightarrow> (GrammarRule \<times> nat) list" where
  "follow_positions g = concat (map (\<lambda>rule. map (Pair rule) [0..<length (rhs rule)]) g)"

definition follow_prefix :: "nat \<Rightarrow> nat \<Rightarrow> LL1Parser \<Rightarrow> LL1Parser" where
  "follow_prefix k m p =
     (let q = ((\<lambda>q. fst (follow_pass q)) ^^ k) p
      in fst (fold (\<lambda>(rule, i). follow_step rule i) (take m (follow_positions (grammar q)))
               (q, False)))"

section \<open>Properties\<close>

subsection \<open>FIRST of a sequence\<close>

lemma computeFirstOf_Nil: "computeFirstOf p [] = {||}"
  by (simp add: computeFirstOf_def)

lemma computeFirstOf_terminal:
  "isTerminal p symbol \<Longrightarrow> computeFirstOf p (symbol # symbols) = {|symbol|}"
  by (simp add: computeFirstOf_def)

text \<open>
  C2, as the specification states it, fails: on the empty symbol sequence the loop of
  \<open>computeFirstOf\<close> is not entered and the local set is returned empty, so the result
  is not the singleton of the epsilon marker.
\<close>

theorem C2_empty_sequence_counterexample:
  "computeFirstOf new_parser [] \<noteq> {|''epsilon''|}"
  by (simp add: computeFirstOf_Nil fempty_not_finsert)

text \<open>
  C2, amended: for every parser state, \<open>computeFirstOf\<close> of the empty symbol sequence
  is the empty set; an empty production is written with the symbol \<open>epsilon\<close>, and for
  a right-hand side that is this one symbol, classified as a terminal (as
  \<open>loadGrammar\<close> classifies it), \<open>computeFirstOf\<close> is the singleton of the epsilon
  marker.
\<close>

theorem C2_first_of_empty_and_epsilon:
  "computeFirstOf p [] = {||} \<and>
   (isTerminal p ''epsilon'' \<longrightarrow> computeFirstOf p [''epsilon''] = {|''epsilon''|})"
  by (simp add: computeFirstOf_Nil computeFirstOf_terminal)

theorem C2_first_of_empty_and_epsilon_witness:
  "isTerminal (loadGrammar [''A -> epsilon''] new_parser) ''epsilon'' \<and>
   computeFirstOf (loadGrammar [''A -> epsilon''] new_parser) [] = {||} \<and>
   computeFirstOf (loadGrammar [''A -> epsilon''] new_parser) [''epsilon''] = {|''epsilon''|}"
proof -
  have t: "isTerminal (loadGrammar [''A -> epsilon''] new_parser) ''epsilon''"
    by (simp add: isTerminal_def loadGrammar_def load_line_def split_def isspace_def
        new_parser_def classify_def isupper_def first_char_def Let_def)
  from C2_first_of_empty_and_epsilon [of "loadGrammar [''A -> epsilon''] new_parser"] t
  show ?thesis by simp
qed


subsection \<open>Classification by \<open>loadGrammar\<close>\<close>

lemma fold_classify:
  "grammar (fold classify xs p) = grammar p \<and>
   startSymbol (fold classify xs p) = startSymbol p \<and>
   fset (terminals (fold classify xs p)) =
     fset (terminals p) \<union> {s \<in> set xs. \<not> isupper (first_char s)} \<and>
   fset (nonTerminals (fold classify xs p)) =
     fset (nonTerminals p) \<union> {s \<in> set xs. isupper (first_char s)}"
  by (induction xs arbitrary: p) (auto simp: classify_def)

lemma rhs_symbols_snoc:
  "rhs_symbols (g @ [r]) = rhs_symbols g \<union> set (rhs r)"
  by (auto simp: rhs_symbols_def)

lemma load_line_classified: "classified p \<Longrightarrow> classified (load_line ln p)"
  unfolding load_line_def Let_def classified_def
  by (auto simp: fold_classify rhs_symbols_snoc)

lemma loadGrammar_classified: "classified p \<Longrightarrow> classified (loadGrammar lns p)"
  unfolding loadGrammar_def
  by (induction lns arbitrary: p) (simp_all add: load_line_classified)

lemma new_parser_classified: "classified new_parser"
  by (simp add: classified_def new_parser_def rhs_symbols_def)

lemmas load_eval = loadGrammar_def load_line_def split_def isspace_def new_parser_def
  classify_def isupper_def first_char_def Let_def

text \<open>
  C4, as the specification states it, fails: in the grammar \<^verbatim>\<open>S -> ID\<close> the symbol
  \<open>ID\<close> stands on a right-hand side and is the left-hand side of no rule, yet it is
  entered into the nonterminal set and not into the terminal set, because its first
  character is an uppercase letter.
\<close>

theorem C4_uppercase_symbol_counterexample:
  "''ID'' \<in> set (rhs (hd (grammar (loadGrammar [''S -> ID''] new_parser)))) \<and>
   ''ID'' |\<in>| nonTerminals (loadGrammar [''S -> ID''] new_parser) \<and>
   ''ID'' |\<notin>| terminals (loadGrammar [''S -> ID''] new_parser) \<and>
   ''ID'' \<notin> set (map lhs (grammar (loadGrammar [''S -> ID''] new_parser)))"
  by (simp add: load_eval)

text \<open>
  C4, amended: after \<open>loadGrammar\<close> on a fresh parser, every symbol occurring on some
  rule's right-hand side is in the terminal set if and only if its first character is
  not an uppercase letter, and is in the nonterminal set if and only if its first
  character is an uppercase letter or it is some rule's left-hand side (anywhere in the
  rule list).
\<close>

theorem C4_classified_by_case:
  assumes "rule \<in> set (grammar (loadGrammar lns new_parser))" and "symb \<in> set (rhs rule)"
  shows "(symb |\<in>| terminals (loadGrammar lns new_parser) \<longleftrightarrow> \<not> isupper (first_char symb)) \<and>
    (symb |\<in>| nonTerminals (loadGrammar lns new_parser) \<longleftrightarrow>
       isupper (first_char symb) \<or> symb \<in> set (map lhs (grammar (loadGrammar lns new_parser))))"
proof -
  have c: "classified (loadGrammar lns new_parser)"
    by (rule loadGrammar_classified [OF new_parser_classified])
  have r: "symb \<in> rhs_symbols (grammar (loadGrammar lns new_parser))"
    using assms by (auto simp: rhs_symbols_def)
  from c r show ?thesis
    unfolding classified_def by auto
qed

theorem C4_classified_by_case_witness:
  "\<lparr>lhs = ''S'', rhs = [''A'', ''b'']\<rparr>
     \<in> set (grammar (loadGrammar [''S -> A b'', ''A -> epsilon''] new_parser)) \<and>
   ''b'' \<in> set (rhs \<lparr>lhs = ''S'', rhs = [''A'', ''b'']\<rparr>) \<and>
   ''b'' |\<in>| terminals (loadGrammar [''S -> A b'', ''A -> epsilon''] new_parser) \<and>
   ''b'' |\<notin>| nonTerminals (loadGrammar [''S -> A b'', ''A -> epsilon''] new_parser)"
proof -
  have g: "\<lparr>lhs = ''S'', rhs = [''A'', ''b'']\<rparr>
     \<in> set (grammar (loadGrammar [''S -> A b'', ''A -> epsilon''] new_parser))"
    by (simp add: load_eval)
  have s: "''b'' \<in> set (rhs \<lparr>lhs = ''S'', rhs = [''A'', ''b'']\<rparr>)"
    by simp
  have l: "map lhs (grammar (loadGrammar [''S -> A b'', ''A -> epsilon''] new_parser))
    = [''S'', ''A'']"
    by (simp add: load_eval)
  from C4_classified_by_case [OF g s] g s show ?thesis
    by (simp add: l isupper_def first_char_def)
qed




subsection \<open>Growth of a finite set, and the progress of a pass\<close>

lemma funion_grows: "fcard A < fcard (A |\<union>| B) \<longleftrightarrow> \<not> B |\<subseteq>| A"
proof
  assume "fcard A < fcard (A |\<union>| B)"
  then have "A |\<union>| B \<noteq> A" by auto
  then show "\<not> B |\<subseteq>| A" by auto
next
  assume "\<not> B |\<subseteq>| A"
  then have "A |\<subset>| A |\<union>| B" by auto
  then show "fcard A < fcard (A |\<union>| B)" by (rule pfsubset_fcard_mono)
qed

lemma progress_refl: "progress X m st st"
  by (simp add: progress_def)

lemma progress_trans:
  assumes "progress X m a b" and "progress X m b c"
  shows "progress X m a c"
proof -
  have "\<forall>s. X (fst a) s |\<subseteq>| X (fst c) s"
    using assms unfolding progress_def by (meson fsubset_trans)
  moreover have "\<not> snd c \<longrightarrow> c = a"
    using assms unfolding progress_def by auto
  moreover have "snd c \<and> \<not> snd a \<longrightarrow> m (fst c) < m (fst a)"
    using assms unfolding progress_def by (cases "snd b") auto
  ultimately show ?thesis
    using assms unfolding progress_def by auto
qed

lemma progress_fold:
  assumes "\<And>x st. x \<in> set xs \<Longrightarrow> grammar (fst st) = g \<Longrightarrow> progress X m st (f x st)"
    and "grammar (fst st) = g"
  shows "progress X m st (fold f xs st)"
  using assms
proof (induction xs arbitrary: st)
  case Nil
  show ?case by (simp add: progress_refl)
next
  case (Cons x xs)
  have 1: "progress X m st (f x st)"
    using Cons.prems by simp
  then have "grammar (fst (f x st)) = g"
    using Cons.prems(2) by (simp add: progress_def)
  then have "progress X m (f x st) (fold f xs (f x st))"
    using Cons.prems(1) by (intro Cons.IH) simp_all
  with 1 show ?case
    by (simp add: progress_trans)
qed

subsection \<open>Termination of \<open>computeFirst\<close>\<close>

lemma finite_symbols: "finite (grammar_symbols g)"
  by (simp add: grammar_symbols_def rhs_symbols_def)

lemma rhs_in_symbols: "rule \<in> set g \<Longrightarrow> set (rhs rule) \<subseteq> grammar_symbols g"
  by (auto simp: grammar_symbols_def rhs_symbols_def)

lemma lhs_in_symbols: "rule \<in> set g \<Longrightarrow> lhs rule \<in> grammar_symbols g"
  by (auto simp: grammar_symbols_def)

lemma finite_first_universe: "finite (first_universe p)"
  by (simp add: first_universe_def finite_symbols)

lemma finite_first_gap: "finite (first_gap p)"
proof (rule finite_subset)
  show "first_gap p \<subseteq> grammar_symbols (grammar p) \<times> first_universe p"
    by (auto simp: first_gap_def)
  show "finite (grammar_symbols (grammar p) \<times> first_universe p)"
    by (simp add: finite_symbols finite_first_universe)
qed

lemma computeFirstOf_loop_subset:
  "fset (computeFirstOf_loop p xs acc) \<subseteq>
     fset acc \<union> set xs \<union> (\<Union>s \<in> set xs. fset (firstSet p s))"
  by (induction xs arbitrary: acc) (auto simp: Let_def split: if_splits)

lemma computeFirstOf_subset:
  "fset (computeFirstOf p xs) \<subseteq> set xs \<union> (\<Union>s \<in> set xs. fset (firstSet p s))"
  using computeFirstOf_loop_subset [of p xs "{||}"] by (simp add: computeFirstOf_def)

lemma computeFirstOf_in_universe:
  assumes "set xs \<subseteq> grammar_symbols (grammar p)"
  shows "fset (computeFirstOf p xs) \<subseteq> first_universe p"
  using computeFirstOf_subset [of p xs] assms by (auto simp: first_universe_def)

lemma first_step_eq:
  "first_step rule (p, changed) =
     (p\<lparr>firstSet := (firstSet p)(lhs rule := firstSet p (lhs rule) |\<union>| computeFirstOf p (rhs rule))\<rparr>,
      changed \<or> \<not> computeFirstOf p (rhs rule) |\<subseteq>| firstSet p (lhs rule))"
  by (simp add: Let_def funion_grows)

declare first_step.simps [simp del]

lemma first_universe_update:
  assumes "k \<in> grammar_symbols (grammar p)" and "fset B \<subseteq> first_universe p"
  shows "first_universe (p\<lparr>firstSet := (firstSet p)(k := firstSet p k |\<union>| B)\<rparr>) = first_universe p"
proof -
  have "fset (firstSet p k) \<subseteq> first_universe p"
    using assms(1) by (auto simp: first_universe_def)
  with assms show ?thesis
    by (auto simp: first_universe_def split: if_splits)
qed

lemma first_gap_update:
  assumes "k \<in> grammar_symbols (grammar p)" and "fset B \<subseteq> first_universe p"
  shows "first_gap (p\<lparr>firstSet := (firstSet p)(k := firstSet p k |\<union>| B)\<rparr>) \<subseteq> first_gap p"
    and "\<not> B |\<subseteq>| firstSet p k \<Longrightarrow>
         first_gap (p\<lparr>firstSet := (firstSet p)(k := firstSet p k |\<union>| B)\<rparr>) \<subset> first_gap p"
proof -
  let ?p' = "p\<lparr>firstSet := (firstSet p)(k := firstSet p k |\<union>| B)\<rparr>"
  have u: "first_universe ?p' = first_universe p"
    by (rule first_universe_update [OF assms])
  show sub: "first_gap ?p' \<subseteq> first_gap p"
    unfolding first_gap_def u by (auto split: if_splits)
  assume "\<not> B |\<subseteq>| firstSet p k"
  then obtain x where x: "x |\<in>| B" "x |\<notin>| firstSet p k" by auto
  then have "x \<in> first_universe p" using assms(2) by auto
  with x assms(1) have "(k, x) \<in> first_gap p" "(k, x) \<notin> first_gap ?p'"
    by (auto simp: first_gap_def)
  with sub show "first_gap ?p' \<subset> first_gap p" by auto
qed

lemma first_step_progress:
  assumes "rule \<in> set (grammar p)"
  shows "progress firstSet (\<lambda>q. card (first_gap q)) (p, c) (first_step rule (p, c))"
proof -
  let ?B = "computeFirstOf p (rhs rule)"
  let ?p' = "p\<lparr>firstSet := (firstSet p)(lhs rule := firstSet p (lhs rule) |\<union>| ?B)\<rparr>"
  have k: "lhs rule \<in> grammar_symbols (grammar p)"
    by (rule lhs_in_symbols [OF assms])
  have b: "fset ?B \<subseteq> first_universe p"
    by (rule computeFirstOf_in_universe [OF rhs_in_symbols [OF assms]])
  have le: "card (first_gap ?p') \<le> card (first_gap p)"
    by (rule card_mono [OF finite_first_gap first_gap_update(1) [OF k b]])
  have lt: "\<not> ?B |\<subseteq>| firstSet p (lhs rule) \<Longrightarrow> card (first_gap ?p') < card (first_gap p)"
    by (intro psubset_card_mono [OF finite_first_gap] first_gap_update(2) [OF k b])
  have same: "?B |\<subseteq>| firstSet p (lhs rule) \<Longrightarrow> ?p' = p"
    by (simp add: sup_absorb1)
  from le lt same show ?thesis
    unfolding progress_def first_step_eq by auto
qed

lemma first_pass_progress:
  "progress firstSet (\<lambda>q. card (first_gap q)) (p, False) (first_pass p)"
  unfolding first_pass_def
proof (rule progress_fold [where g = "grammar p"])
  fix x and st :: "LL1Parser \<times> bool"
  assume "x \<in> set (grammar p)" and "grammar (fst st) = grammar p"
  then show "progress firstSet (\<lambda>q. card (first_gap q)) st (first_step x st)"
    using first_step_progress [of x "fst st" "snd st"] by simp
qed simp

termination computeFirst
proof (relation "measure (\<lambda>p. card (first_gap p))")
  show "wf (measure (\<lambda>p. card (first_gap p)))" by simp
next
  fix p p' :: LL1Parser and changed :: bool
  assume "(p', changed) = first_pass p" and changed
  then have "first_pass p = (p', True)" by simp
  with first_pass_progress [of p]
  show "(p', p) \<in> measure (\<lambda>p. card (first_gap p))"
    by (simp add: progress_def)
qed

declare computeFirst.simps [simp del]

lemma first_pass_unchanged: "first_pass p = (p', False) \<Longrightarrow> p' = p"
  using first_pass_progress [of p] by (simp add: progress_def)

lemma computeFirst_after_pass: "computeFirst (fst (first_pass p)) = computeFirst p"
proof (cases "first_pass p")
  case (Pair p' changed)
  show ?thesis
  proof (cases changed)
    case True
    with Pair show ?thesis
      by (simp add: computeFirst.simps [of p])
  next
    case False
    with Pair first_pass_unchanged [of p p'] show ?thesis by simp
  qed
qed

lemma computeFirst_grows: "firstSet p s |\<subseteq>| firstSet (computeFirst p) s"
proof (induction p rule: computeFirst.induct)
  case (1 p)
  obtain p' changed where pass: "first_pass p = (p', changed)"
    by (cases "first_pass p")
  have step: "firstSet p s |\<subseteq>| firstSet p' s"
    using first_pass_progress [of p] pass by (simp add: progress_def)
  show ?case
  proof (cases changed)
    case True
    with "1.IH" [OF pass [symmetric]] have "firstSet p' s |\<subseteq>| firstSet (computeFirst p') s"
      by simp
    with step have "firstSet p s |\<subseteq>| firstSet (computeFirst p') s"
      by (rule fsubset_trans)
    with True pass show ?thesis
      by (simp add: computeFirst.simps [of p])
  next
    case False
    with step pass show ?thesis
      by (simp add: computeFirst.simps [of p])
  qed
qed

lemma computeFirst_fuel_enough: "\<exists>n. computeFirst_fuel n p = Some (computeFirst p)"
proof (induction p rule: computeFirst.induct)
  case (1 p)
  obtain p' changed where pass: "first_pass p = (p', changed)"
    by (cases "first_pass p")
  show ?case
  proof (cases changed)
    case True
    with "1.IH" [OF pass [symmetric]] obtain n
      where "computeFirst_fuel n p' = Some (computeFirst p')" by auto
    with True pass have "computeFirst_fuel (Suc n) p = Some (computeFirst p)"
      by (simp add: computeFirst.simps [of p])
    then show ?thesis ..
  next
    case False
    with pass have "computeFirst_fuel (Suc 0) p = Some (computeFirst p)"
      by (simp add: computeFirst.simps [of p])
    then show ?thesis ..
  qed
qed

subsection \<open>Termination of \<open>computeFollow\<close>\<close>

lemma first_universe_followSet [simp]:
  "first_universe (p\<lparr>followSet := f\<rparr>) = first_universe p"
  by (simp add: first_universe_def)

lemma finite_follow_universe: "finite (follow_universe p)"
  by (simp add: follow_universe_def finite_first_universe finite_symbols)

lemma finite_follow_gap: "finite (follow_gap p)"
proof (rule finite_subset)
  show "follow_gap p \<subseteq> grammar_symbols (grammar p) \<times> follow_universe p"
    by (auto simp: follow_gap_def)
  show "finite (grammar_symbols (grammar p) \<times> follow_universe p)"
    by (simp add: finite_symbols finite_follow_universe)
qed

lemma followSet_in_universe:
  "s \<in> grammar_symbols (grammar p) \<Longrightarrow> fset (followSet p s) \<subseteq> follow_universe p"
  by (auto simp: follow_universe_def)

lemma followOf_step_subset:
  assumes "rule \<in> set (grammar p)"
  shows "fset (followOf_step p nt rule i acc) \<subseteq> fset acc \<union> follow_universe p"
proof -
  have "set (drop (i + 1) (rhs rule)) \<subseteq> grammar_symbols (grammar p)"
    using rhs_in_symbols [OF assms] set_drop_subset [of "i + 1" "rhs rule"] by blast
  then have "fset (computeFirstOf p (drop (i + 1) (rhs rule))) \<subseteq> first_universe p"
    by (rule computeFirstOf_in_universe)
  then have 1: "fset (computeFirstOf p (drop (i + 1) (rhs rule))) \<subseteq> follow_universe p"
    by (auto simp: follow_universe_def)
  have 2: "fset (followSet p (lhs rule)) \<subseteq> follow_universe p"
    by (rule followSet_in_universe [OF lhs_in_symbols [OF assms]])
  from 1 2 show ?thesis
    by (auto simp: followOf_step_def Let_def)
qed

lemma followOf_rule_subset:
  assumes "rule \<in> set (grammar p)"
  shows "fset (fold (followOf_step p nt rule) is acc) \<subseteq> fset acc \<union> follow_universe p"
proof (induction "is" arbitrary: acc)
  case Nil
  show ?case by simp
next
  case (Cons i "is")
  from Cons.IH [of "followOf_step p nt rule i acc"]
    followOf_step_subset [OF assms, of nt i acc]
  show ?case by auto
qed

lemma followOf_rules_subset:
  assumes "set rs \<subseteq> set (grammar p)"
  shows "fset (fold (\<lambda>rule. fold (followOf_step p nt rule) [0..<length (rhs rule)]) rs acc)
     \<subseteq> fset acc \<union> follow_universe p"
  using assms
proof (induction rs arbitrary: acc)
  case Nil
  show ?case by simp
next
  case (Cons r rs)
  then have r: "r \<in> set (grammar p)" and rs: "set rs \<subseteq> set (grammar p)"
    by simp_all
  from Cons.IH [OF rs, of "fold (followOf_step p nt r) [0..<length (rhs r)] acc"]
    followOf_rule_subset [OF r, of nt "[0..<length (rhs r)]" acc]
  show ?case by auto
qed

lemma computeFollowOf_in_universe: "fset (computeFollowOf p nt) \<subseteq> follow_universe p"
proof -
  have "fset (if nt = startSymbol p then {|''$''|} else {||}) \<subseteq> follow_universe p"
    by (simp add: follow_universe_def)
  with followOf_rules_subset [of "grammar p" p nt "if nt = startSymbol p then {|''$''|} else {||}"]
  show ?thesis
    unfolding computeFollowOf_def by blast
qed

lemma follow_step_eq:
  "follow_step rule i (p, changed) =
     (if rhs rule ! i |\<in>| nonTerminals p
      then (p\<lparr>followSet := (followSet p)(rhs rule ! i :=
                 followSet p (rhs rule ! i) |\<union>| computeFollowOf p (rhs rule ! i))\<rparr>,
            changed \<or> \<not> computeFollowOf p (rhs rule ! i) |\<subseteq>| followSet p (rhs rule ! i))
      else (p, changed))"
  by (simp add: Let_def funion_grows)

declare follow_step.simps [simp del]

lemma follow_universe_update:
  assumes "k \<in> grammar_symbols (grammar p)" and "fset B \<subseteq> follow_universe p"
  shows "follow_universe (p\<lparr>followSet := (followSet p)(k := followSet p k |\<union>| B)\<rparr>)
    = follow_universe p"
proof -
  have "fset (followSet p k) \<subseteq> follow_universe p"
    by (rule followSet_in_universe [OF assms(1)])
  with assms show ?thesis
    by (auto simp: follow_universe_def split: if_splits)
qed

lemma follow_gap_update:
  assumes "k \<in> grammar_symbols (grammar p)" and "fset B \<subseteq> follow_universe p"
  shows "follow_gap (p\<lparr>followSet := (followSet p)(k := followSet p k |\<union>| B)\<rparr>) \<subseteq> follow_gap p"
    and "\<not> B |\<subseteq>| followSet p k \<Longrightarrow>
         follow_gap (p\<lparr>followSet := (followSet p)(k := followSet p k |\<union>| B)\<rparr>) \<subset> follow_gap p"
proof -
  let ?p' = "p\<lparr>followSet := (followSet p)(k := followSet p k |\<union>| B)\<rparr>"
  have u: "follow_universe ?p' = follow_universe p"
    by (rule follow_universe_update [OF assms])
  show sub: "follow_gap ?p' \<subseteq> follow_gap p"
    unfolding follow_gap_def u by (auto split: if_splits)
  assume "\<not> B |\<subseteq>| followSet p k"
  then obtain x where x: "x |\<in>| B" "x |\<notin>| followSet p k" by auto
  then have "x \<in> follow_universe p" using assms(2) by auto
  with x assms(1) have "(k, x) \<in> follow_gap p" "(k, x) \<notin> follow_gap ?p'"
    by (auto simp: follow_gap_def u)
  with sub show "follow_gap ?p' \<subset> follow_gap p" by auto
qed

lemma follow_step_progress:
  assumes "rule \<in> set (grammar p)" and "i < length (rhs rule)"
  shows "progress followSet (\<lambda>q. card (follow_gap q)) (p, c) (follow_step rule i (p, c))"
proof (cases "rhs rule ! i |\<in>| nonTerminals p")
  case False
  then show ?thesis
    by (simp add: follow_step_eq progress_refl)
next
  case True
  let ?k = "rhs rule ! i"
  let ?B = "computeFollowOf p ?k"
  let ?p' = "p\<lparr>followSet := (followSet p)(?k := followSet p ?k |\<union>| ?B)\<rparr>"
  have k: "?k \<in> grammar_symbols (grammar p)"
    using rhs_in_symbols [OF assms(1)] assms(2) by auto
  have b: "fset ?B \<subseteq> follow_universe p"
    by (rule computeFollowOf_in_universe)
  have le: "card (follow_gap ?p') \<le> card (follow_gap p)"
    by (rule card_mono [OF finite_follow_gap follow_gap_update(1) [OF k b]])
  have lt: "\<not> ?B |\<subseteq>| followSet p ?k \<Longrightarrow> card (follow_gap ?p') < card (follow_gap p)"
    by (intro psubset_card_mono [OF finite_follow_gap] follow_gap_update(2) [OF k b])
  have same: "?B |\<subseteq>| followSet p ?k \<Longrightarrow> ?p' = p"
    by (simp add: sup_absorb1)
  from le lt same True show ?thesis
    unfolding progress_def follow_step_eq by auto
qed

lemma follow_rule_progress:
  assumes "rule \<in> set (grammar (fst st))"
  shows "progress followSet (\<lambda>q. card (follow_gap q)) st (follow_rule rule st)"
  unfolding follow_rule_def
proof (rule progress_fold [where g = "grammar (fst st)"])
  fix i and st' :: "LL1Parser \<times> bool"
  assume "i \<in> set [0..<length (rhs rule)]" and "grammar (fst st') = grammar (fst st)"
  then show "progress followSet (\<lambda>q. card (follow_gap q)) st' (follow_step rule i st')"
    using follow_step_progress [of rule "fst st'" i "snd st'"] assms by simp
qed simp

lemma follow_pass_progress:
  "progress followSet (\<lambda>q. card (follow_gap q)) (p, False) (follow_pass p)"
  unfolding follow_pass_def
proof (rule progress_fold [where g = "grammar p"])
  fix x and st :: "LL1Parser \<times> bool"
  assume "x \<in> set (grammar p)" and "grammar (fst st) = grammar p"
  then show "progress followSet (\<lambda>q. card (follow_gap q)) st (follow_rule x st)"
    by (intro follow_rule_progress) simp
qed simp

termination computeFollow
proof (relation "measure (\<lambda>p. card (follow_gap p))")
  show "wf (measure (\<lambda>p. card (follow_gap p)))" by simp
next
  fix p p' :: LL1Parser and changed :: bool
  assume "(p', changed) = follow_pass p" and changed
  then have "follow_pass p = (p', True)" by simp
  with follow_pass_progress [of p]
  show "(p', p) \<in> measure (\<lambda>p. card (follow_gap p))"
    by (simp add: progress_def)
qed

declare computeFollow.simps [simp del]

lemma follow_pass_unchanged: "follow_pass p = (p', False) \<Longrightarrow> p' = p"
  using follow_pass_progress [of p] by (simp add: progress_def)

lemma computeFollow_after_pass: "computeFollow (fst (follow_pass p)) = computeFollow p"
proof (cases "follow_pass p")
  case (Pair p' changed)
  show ?thesis
  proof (cases changed)
    case True
    with Pair show ?thesis
      by (simp add: computeFollow.simps [of p])
  next
    case False
    with Pair follow_pass_unchanged [of p p'] show ?thesis by simp
  qed
qed

lemma computeFollow_grows: "followSet p s |\<subseteq>| followSet (computeFollow p) s"
proof (induction p rule: computeFollow.induct)
  case (1 p)
  obtain p' changed where pass: "follow_pass p = (p', changed)"
    by (cases "follow_pass p")
  have step: "followSet p s |\<subseteq>| followSet p' s"
    using follow_pass_progress [of p] pass by (simp add: progress_def)
  show ?case
  proof (cases changed)
    case True
    with "1.IH" [OF pass [symmetric]]
    have "followSet p' s |\<subseteq>| followSet (computeFollow p') s"
      by simp
    with step have "followSet p s |\<subseteq>| followSet (computeFollow p') s"
      by (rule fsubset_trans)
    with True pass show ?thesis
      by (simp add: computeFollow.simps [of p])
  next
    case False
    with step pass show ?thesis
      by (simp add: computeFollow.simps [of p])
  qed
qed

lemma computeFollow_fuel_enough: "\<exists>n. computeFollow_fuel n p = Some (computeFollow p)"
proof (induction p rule: computeFollow.induct)
  case (1 p)
  obtain p' changed where pass: "follow_pass p = (p', changed)"
    by (cases "follow_pass p")
  show ?case
  proof (cases changed)
    case True
    with "1.IH" [OF pass [symmetric]] obtain n
      where "computeFollow_fuel n p' = Some (computeFollow p')" by auto
    with True pass have "computeFollow_fuel (Suc n) p = Some (computeFollow p)"
      by (simp add: computeFollow.simps [of p])
    then show ?thesis ..
  next
    case False
    with pass have "computeFollow_fuel (Suc 0) p = Some (computeFollow p)"
      by (simp add: computeFollow.simps [of p])
    then show ?thesis ..
  qed
qed

subsection \<open>Prefixes of the two iterations\<close>

lemma computeFirst_after_passes:
  "computeFirst (((\<lambda>q. fst (first_pass q)) ^^ k) p) = computeFirst p"
  by (induction k) (simp_all add: computeFirst_after_pass)

lemma computeFollow_after_passes:
  "computeFollow (((\<lambda>q. fst (follow_pass q)) ^^ k) p) = computeFollow p"
  by (induction k) (simp_all add: computeFollow_after_pass)

lemma fold_take_drop: "fold f (drop m xs) (fold f (take m xs) st) = fold f xs st"
  by (metis append_take_drop_id comp_apply fold_append)

lemma first_prefix_below_pass:
  "firstSet (fst (fold first_step (take m (grammar q)) (q, False))) s
     |\<subseteq>| firstSet (fst (first_pass q)) s"
proof -
  let ?st = "fold first_step (take m (grammar q)) (q, False)"
  have step: "\<And>x st. x \<in> set (grammar q) \<Longrightarrow> grammar (fst st) = grammar q \<Longrightarrow>
      progress firstSet (\<lambda>q. card (first_gap q)) st (first_step x st)"
    using first_step_progress by (metis prod.collapse)
  have "progress firstSet (\<lambda>q. card (first_gap q)) (q, False) ?st"
    by (rule progress_fold [where g = "grammar q"]) (auto intro: step dest: in_set_takeD)
  then have g: "grammar (fst ?st) = grammar q"
    by (simp add: progress_def)
  have "progress firstSet (\<lambda>q. card (first_gap q)) ?st (fold first_step (drop m (grammar q)) ?st)"
    by (rule progress_fold [where g = "grammar q"]) (auto intro: step g dest: in_set_dropD)
  moreover have "fold first_step (drop m (grammar q)) ?st = first_pass q"
    unfolding first_pass_def by (rule fold_take_drop)
  ultimately show ?thesis
    by (simp add: progress_def)
qed

lemma first_prefix_below: "firstSet (first_prefix k m p) s |\<subseteq>| firstSet (computeFirst p) s"
proof -
  let ?q = "((\<lambda>q. fst (first_pass q)) ^^ k) p"
  have "firstSet (first_prefix k m p) s |\<subseteq>| firstSet (fst (first_pass ?q)) s"
    unfolding first_prefix_def Let_def by (rule first_prefix_below_pass)
  also have "\<dots> |\<subseteq>| firstSet (computeFirst (fst (first_pass ?q))) s"
    by (rule computeFirst_grows)
  also have "computeFirst (fst (first_pass ?q)) = computeFirst p"
    by (simp add: computeFirst_after_pass computeFirst_after_passes)
  finally show ?thesis .
qed

lemma follow_pass_positions:
  "follow_pass p = fold (\<lambda>(rule, i). follow_step rule i) (follow_positions (grammar p)) (p, False)"
proof -
  have "fold (\<lambda>(rule, i). follow_step rule i) (follow_positions g) st = fold follow_rule g st"
    for g st
    by (induction g arbitrary: st)
      (simp_all add: follow_positions_def follow_rule_def fold_map comp_def)
  then show ?thesis
    by (simp add: follow_pass_def)
qed

lemma follow_position_progress:
  assumes "x \<in> set (follow_positions (grammar q))" and "grammar (fst st) = grammar q"
  shows "progress followSet (\<lambda>q. card (follow_gap q)) st ((\<lambda>(rule, i). follow_step rule i) x st)"
proof -
  obtain rule i where x: "x = (rule, i)" by (cases x)
  with assms(1) have "rule \<in> set (grammar q)" "i < length (rhs rule)"
    by (auto simp: follow_positions_def)
  with assms(2) x follow_step_progress [of rule "fst st" i "snd st"] show ?thesis
    by simp
qed

lemma follow_prefix_below_pass:
  "followSet (fst (fold (\<lambda>(rule, i). follow_step rule i)
       (take m (follow_positions (grammar q))) (q, False))) s
     |\<subseteq>| followSet (fst (follow_pass q)) s"
proof -
  let ?f = "\<lambda>(rule, i). follow_step rule i"
  let ?st = "fold ?f (take m (follow_positions (grammar q))) (q, False)"
  have step: "\<And>x st. x \<in> set (follow_positions (grammar q)) \<Longrightarrow>
      grammar (fst st) = grammar q \<Longrightarrow>
      progress followSet (\<lambda>q. card (follow_gap q)) st (?f x st)"
    by (rule follow_position_progress)
  have "progress followSet (\<lambda>q. card (follow_gap q)) (q, False) ?st"
  proof (rule progress_fold [where g = "grammar q"])
    fix x and st :: "LL1Parser \<times> bool"
    assume "x \<in> set (take m (follow_positions (grammar q)))" "grammar (fst st) = grammar q"
    then show "progress followSet (\<lambda>q. card (follow_gap q)) st (?f x st)"
      by (intro step) (auto dest: in_set_takeD)
  qed simp
  then have g: "grammar (fst ?st) = grammar q"
    by (simp add: progress_def)
  have "progress followSet (\<lambda>q. card (follow_gap q)) ?st
      (fold ?f (drop m (follow_positions (grammar q))) ?st)"
  proof (rule progress_fold [where g = "grammar q"])
    fix x and st :: "LL1Parser \<times> bool"
    assume "x \<in> set (drop m (follow_positions (grammar q)))" "grammar (fst st) = grammar q"
    then show "progress followSet (\<lambda>q. card (follow_gap q)) st (?f x st)"
      by (intro step) (auto dest: in_set_dropD)
  qed (rule g)
  moreover have "fold ?f (drop m (follow_positions (grammar q))) ?st = follow_pass q"
    unfolding follow_pass_positions by (rule fold_take_drop)
  ultimately show ?thesis
    by (simp add: progress_def)
qed

lemma follow_prefix_below:
  "followSet (follow_prefix k m p) s |\<subseteq>| followSet (computeFollow p) s"
proof -
  let ?q = "((\<lambda>q. fst (follow_pass q)) ^^ k) p"
  have "followSet (follow_prefix k m p) s |\<subseteq>| followSet (fst (follow_pass ?q)) s"
    unfolding follow_prefix_def Let_def by (rule follow_prefix_below_pass)
  also have "\<dots> |\<subseteq>| followSet (computeFollow (fst (follow_pass ?q))) s"
    by (rule computeFollow_grows)
  also have "computeFollow (fst (follow_pass ?q)) = computeFollow p"
    by (simp add: computeFollow_after_pass computeFollow_after_passes)
  finally show ?thesis .
qed

text \<open>
  C10: for every parser state (so for every grammar), the loops of \<open>computeFirst\<close> and
  \<open>computeFollow\<close> return after finitely many passes, and the FIRST and FOLLOW sets
  they return contain the sets stored after any number \<open>k\<close> of passes followed by any
  number \<open>m\<close> of steps of the next pass.
\<close>

theorem C10_fixed_points_terminate_and_grow:
  "(\<exists>n. computeFirst_fuel n p = Some (computeFirst p)) \<and>
   (\<exists>n. computeFollow_fuel n p = Some (computeFollow p)) \<and>
   (\<forall>k m s. firstSet (first_prefix k m p) s |\<subseteq>| firstSet (computeFirst p) s) \<and>
   (\<forall>k m s. followSet (follow_prefix k m p) s |\<subseteq>| followSet (computeFollow p) s)"
  using computeFirst_fuel_enough computeFollow_fuel_enough first_prefix_below follow_prefix_below
  by blast

subsection \<open>The table built by \<open>buildParseTable\<close>\<close>

lemma computeFirstOf_loop_parseTable [simp]:
  "computeFirstOf_loop (p\<lparr>parseTable := t\<rparr>) xs acc = computeFirstOf_loop p xs acc"
  by (induction xs arbitrary: acc) (simp_all add: isTerminal_def Let_def)

lemma table_entries_parseTable [simp]:
  "table_entries (p\<lparr>parseTable := t\<rparr>) rule = table_entries p rule"
  by (simp add: table_entries_def computeFirstOf_def)

lemma parseTable_cong:
  "(\<And>k. f k = g k) \<Longrightarrow> (p :: LL1Parser)\<lparr>parseTable := f\<rparr> = p\<lparr>parseTable := g\<rparr>"
  by (simp add: fun_eq_iff)

lemma fold_put_entry:
  "fold (put_entry rule) ts p =
     p\<lparr>parseTable := (\<lambda>k. if fst k = lhs rule \<and> snd k \<in> set ts then Some rule
                             else parseTable p k)\<rparr>"
proof (induction ts arbitrary: p)
  case Nil
  show ?case by simp
next
  case (Cons t ts)
  have "fold (put_entry rule) (t # ts) p = fold (put_entry rule) ts (put_entry rule t p)"
    by simp
  also have "\<dots> = (put_entry rule t p)\<lparr>parseTable :=
      (\<lambda>k. if fst k = lhs rule \<and> snd k \<in> set ts then Some rule
            else parseTable (put_entry rule t p) k)\<rparr>"
    by (rule Cons.IH)
  also have "\<dots> = p\<lparr>parseTable :=
      (\<lambda>k. if fst k = lhs rule \<and> snd k \<in> set ts then Some rule
            else ((parseTable p)((lhs rule, t) \<mapsto> rule)) k)\<rparr>"
    unfolding put_entry_def by (simp, rule parseTable_cong) simp
  also have "\<dots> = p\<lparr>parseTable :=
      (\<lambda>k. if fst k = lhs rule \<and> snd k \<in> set (t # ts) then Some rule else parseTable p k)\<rparr>"
    by (rule parseTable_cong) auto
  finally show ?case .
qed

lemma fold_put_entry_unless_epsilon:
  "fold (\<lambda>terminal q. if terminal \<noteq> ''epsilon'' then put_entry rule terminal q else q) ts p =
     fold (put_entry rule) (filter (\<lambda>t. t \<noteq> ''epsilon'') ts) p"
  by (induction ts arbitrary: p) simp_all

lemma build_step_eq:
  "build_step rule p =
     p\<lparr>parseTable := (\<lambda>k. if fst k = lhs rule \<and> snd k |\<in>| table_entries p rule then Some rule
                             else parseTable p k)\<rparr>"
proof -
  let ?F = "computeFirstOf p (rhs rule)"
  let ?p1 = "p\<lparr>parseTable := (\<lambda>k. if fst k = lhs rule \<and> snd k |\<in>| ?F \<and> snd k \<noteq> ''epsilon''
                                    then Some rule else parseTable p k)\<rparr>"
  have p1: "fold (\<lambda>terminal q. if terminal \<noteq> ''epsilon'' then put_entry rule terminal q else q)
      (sorted_list_of_fset ?F) p = ?p1"
    unfolding fold_put_entry_unless_epsilon fold_put_entry
    by (rule parseTable_cong) auto
  show ?thesis
  proof (cases "''epsilon'' |\<in>| ?F")
    case False
    then have "build_step rule p = ?p1"
      by (simp add: build_step_def Let_def p1 del: fold_simps)
    also have "\<dots> = p\<lparr>parseTable := (\<lambda>k. if fst k = lhs rule \<and> snd k |\<in>| table_entries p rule
        then Some rule else parseTable p k)\<rparr>"
      using False by (intro parseTable_cong) (auto simp: table_entries_def)
    finally show ?thesis .
  next
    case True
    then have "build_step rule p =
        fold (put_entry rule) (sorted_list_of_fset (followSet ?p1 (lhs rule))) ?p1"
      by (simp add: build_step_def Let_def p1 del: fold_simps)
    also have "\<dots> = ?p1\<lparr>parseTable :=
        (\<lambda>k. if fst k = lhs rule \<and> snd k |\<in>| followSet p (lhs rule) then Some rule
              else parseTable ?p1 k)\<rparr>"
      unfolding fold_put_entry by (rule parseTable_cong) simp
    also have "\<dots> = p\<lparr>parseTable := (\<lambda>k. if fst k = lhs rule \<and> snd k |\<in>| table_entries p rule
        then Some rule else parseTable p k)\<rparr>"
      using True by (simp, intro parseTable_cong) (auto simp: table_entries_def)
    finally show ?thesis .
  qed
qed

lemma fold_build_step:
  "fold build_step rs p =
     p\<lparr>parseTable := (\<lambda>k.
        case find (\<lambda>r. lhs r = fst k \<and> snd k |\<in>| table_entries p r) (rev rs) of
          Some r \<Rightarrow> Some r
        | None \<Rightarrow> parseTable p k)\<rparr>"
proof (induction rs rule: rev_induct)
  case Nil
  show ?case by simp
next
  case (snoc r rs)
  let ?T = "\<lambda>k. case find (\<lambda>r. lhs r = fst k \<and> snd k |\<in>| table_entries p r) (rev rs) of
          Some r \<Rightarrow> Some r | None \<Rightarrow> parseTable p k"
  have "fold build_step (rs @ [r]) p = build_step r (fold build_step rs p)"
    by simp
  also have "\<dots> = build_step r (p\<lparr>parseTable := ?T\<rparr>)"
    by (simp only: snoc.IH)
  also have "\<dots> = p\<lparr>parseTable := (\<lambda>k. if fst k = lhs r \<and> snd k |\<in>| table_entries p r
      then Some r else ?T k)\<rparr>"
    unfolding build_step_eq by (simp, rule parseTable_cong) simp
  also have "\<dots> = p\<lparr>parseTable := (\<lambda>k.
        case find (\<lambda>r. lhs r = fst k \<and> snd k |\<in>| table_entries p r) (rev (rs @ [r])) of
          Some r \<Rightarrow> Some r | None \<Rightarrow> parseTable p k)\<rparr>"
    by (rule parseTable_cong) auto
  finally show ?case .
qed

lemma find_rev_last:
  assumes "i < length xs" and "P (xs ! i)"
    and "\<forall>j. i < j \<and> j < length xs \<longrightarrow> \<not> P (xs ! j)"
  shows "find P (rev xs) = Some (xs ! i)"
  using assms
proof (induction xs rule: rev_induct)
  case Nil
  then show ?case by simp
next
  case (snoc x xs)
  show ?case
  proof (cases "i = length xs")
    case True
    with snoc.prems(2) show ?thesis by simp
  next
    case False
    with snoc.prems(1) have i: "i < length xs" by simp
    from snoc.prems(3) [rule_format, of "length xs"] i have x: "\<not> P x" by simp
    have "\<not> P (xs ! j)" if "i < j \<and> j < length xs" for j
      using snoc.prems(3) [rule_format, of j] that by (simp add: nth_append)
    moreover have "P (xs ! i)"
      using snoc.prems(2) i by (simp add: nth_append)
    ultimately have "find P (rev xs) = Some (xs ! i)"
      using i by (intro snoc.IH) auto
    with x i show ?thesis by (simp add: nth_append)
  qed
qed

subsection \<open>Evaluation on concrete grammars\<close>

text \<open>
  The equations with which the simplifier runs the analysis stages and the parser on
  a concrete grammar file.  Four grammar files are used first: \<^verbatim>\<open>S -> a\<close> (G1); the
  conflicting rules \<^verbatim>\<open>S -> a b\<close>, \<^verbatim>\<open>S -> a c\<close> (G2); \<^verbatim>\<open>S -> a\<close>, \<^verbatim>\<open>$ -> b\<close>, which
  defines the bottom marker as a nonterminal (G3); and \<^verbatim>\<open>S -> id A\<close>,
  \<^verbatim>\<open>A -> num\<close> (G4).
\<close>

lemmas pass_eval = first_pass_def first_step_eq computeFirstOf_def isTerminal_def Let_def
  follow_pass_def follow_rule_def follow_step_eq computeFollowOf_def followOf_step_def

lemmas table_eval = buildParseTable_def build_step_eq table_entries_def computeFirstOf_def
  isTerminal_def

lemmas diag_eval = no_entry_diag_def mismatch_diag_def show_int_def digits.simps

lemmas parse_eval = isTerminal_def diag_eval push_rhs_def

lemma follow_G1: "computeFollow (computeFirst (loadGrammar [''S -> a''] new_parser)) =
  \<lparr>grammar = [\<lparr>lhs = ''S'', rhs = [''a'']\<rparr>], terminals = {|''a''|}, nonTerminals = {|''S''|},
   firstSet = (\<lambda>_. {||})(''S'' := {|''a''|}), followSet = (\<lambda>_. {||}), parseTable = Map.empty,
   startSymbol = ''S''\<rparr>"
  apply (simp add: load_eval)
  apply (subst computeFirst.simps, simp add: pass_eval)
  apply (subst computeFirst.simps, simp add: pass_eval)
  apply (subst computeFollow.simps, simp add: pass_eval)
  done

lemma analyse_G1:
  "terminals (analyse [''S -> a'']) = {|''a''|}"
  "startSymbol (analyse [''S -> a'']) = ''S''"
  "parseTable (analyse [''S -> a'']) (''S'', t) =
     (if t = ''a'' then Some \<lparr>lhs = ''S'', rhs = [''a'']\<rparr> else None)"
  unfolding analyse_def follow_G1 by (simp_all add: table_eval)

text \<open>Scenario 1 of the specification: the token \<^verbatim>\<open>1 a a\<close> is accepted.\<close>

lemma main_G1_a: "main [''S -> a''] [\<lparr>line = 1, type = ''a'', value = ''a''\<rparr>] =
   Some (Inr \<lparr>returned = True, errFile = [], cout = ''YES\<newline>''\<rparr>)"
  unfolding main_def parseTokens_def
  apply (subst parseLoop.simps, simp add: analyse_G1 parse_eval)
  apply (subst parseLoop.simps, simp add: analyse_G1 parse_eval)
  apply (subst parseLoop.simps, simp add: analyse_G1 parse_eval)
  done

lemma main_G1_b: "main [''S -> a''] [\<lparr>line = 1, type = ''b'', value = ''b''\<rparr>] =
   Some (Inr \<lparr>returned = False,
     errFile = ''Syntax error at line 1: unexpected token 'b'\<newline>'',
     cout = ''NO\<newline>''\<rparr>)"
  unfolding main_def parseTokens_def
  by (subst parseLoop.simps) (simp add: analyse_G1 parse_eval)

lemma follow_G2:
  "computeFollow (computeFirst (loadGrammar [''S -> a b'', ''S -> a c''] new_parser)) =
  \<lparr>grammar = [\<lparr>lhs = ''S'', rhs = [''a'', ''b'']\<rparr>, \<lparr>lhs = ''S'', rhs = [''a'', ''c'']\<rparr>],
   terminals = {|''c'', ''a'', ''b'', ''a''|}, nonTerminals = {|''S''|},
   firstSet = (\<lambda>_. {||})(''S'' := {|''a''|}), followSet = (\<lambda>_. {||}), parseTable = Map.empty,
   startSymbol = ''S''\<rparr>"
  apply (simp add: load_eval)
  apply (subst computeFirst.simps, simp add: pass_eval)
  apply (subst computeFirst.simps, simp add: pass_eval)
  apply (subst computeFollow.simps, simp add: pass_eval)
  done

lemma follow_G3:
  "computeFollow (computeFirst (loadGrammar [''S -> a'', ''$ -> b''] new_parser)) =
  \<lparr>grammar = [\<lparr>lhs = ''S'', rhs = [''a'']\<rparr>, \<lparr>lhs = ''$'', rhs = [''b'']\<rparr>],
   terminals = {|''b'', ''a''|}, nonTerminals = {|''$'', ''S''|},
   firstSet = (\<lambda>_. {||})(''S'' := {|''a''|}, ''$'' := {|''b''|}),
   followSet = (\<lambda>_. {||}), parseTable = Map.empty, startSymbol = ''S''\<rparr>"
  apply (simp add: load_eval)
  apply (subst computeFirst.simps, simp add: pass_eval)
  apply (subst computeFirst.simps, simp add: pass_eval)
  apply (subst computeFollow.simps, simp add: pass_eval)
  done

lemma analyse_G3:
  "terminals (analyse [''S -> a'', ''$ -> b'']) = {|''b'', ''a''|}"
  "startSymbol (analyse [''S -> a'', ''$ -> b'']) = ''S''"
  "parseTable (analyse [''S -> a'', ''$ -> b'']) (''S'', ''a'') = Some \<lparr>lhs = ''S'', rhs = [''a'']\<rparr>"
  "parseTable (analyse [''S -> a'', ''$ -> b'']) (''$'', ''b'') = Some \<lparr>lhs = ''$'', rhs = [''b'']\<rparr>"
  unfolding analyse_def follow_G3 by (simp_all add: table_eval)

lemma follow_G4:
  "computeFollow (computeFirst (loadGrammar [''S -> id A'', ''A -> num''] new_parser)) =
  \<lparr>grammar = [\<lparr>lhs = ''S'', rhs = [''id'', ''A'']\<rparr>, \<lparr>lhs = ''A'', rhs = [''num'']\<rparr>],
   terminals = {|''num'', ''id''|}, nonTerminals = {|''A'', ''S''|},
   firstSet = (\<lambda>_. {||})(''S'' := {|''id''|}, ''A'' := {|''num''|}),
   followSet = (\<lambda>_. {||})(''A'' := {||}), parseTable = Map.empty, startSymbol = ''S''\<rparr>"
  apply (simp add: load_eval)
  apply (subst computeFirst.simps, simp add: pass_eval)
  apply (subst computeFirst.simps, simp add: pass_eval)
  apply (subst computeFollow.simps, simp add: pass_eval)
  done

lemma analyse_G4:
  "terminals (analyse [''S -> id A'', ''A -> num'']) = {|''num'', ''id''|}"
  "startSymbol (analyse [''S -> id A'', ''A -> num'']) = ''S''"
  "parseTable (analyse [''S -> id A'', ''A -> num'']) (''S'', ''id'') =
     Some \<lparr>lhs = ''S'', rhs = [''id'', ''A'']\<rparr>"
  "parseTable (analyse [''S -> id A'', ''A -> num'']) (''A'', t) =
     (if t = ''num'' then Some \<lparr>lhs = ''A'', rhs = [''num'']\<rparr> else None)"
  unfolding analyse_def follow_G4 by (simp_all add: table_eval)

text \<open>The grammar file \<^verbatim>\<open>S -> epsilon\<close> (G5), whose start symbol stands on no right-hand side.\<close>

lemma follow_G5: "computeFollow (computeFirst (loadGrammar [''S -> epsilon''] new_parser)) =
  \<lparr>grammar = [\<lparr>lhs = ''S'', rhs = [''epsilon'']\<rparr>], terminals = {|''epsilon''|},
   nonTerminals = {|''S''|}, firstSet = (\<lambda>_. {||})(''S'' := {|''epsilon''|}),
   followSet = (\<lambda>_. {||}), parseTable = Map.empty, startSymbol = ''S''\<rparr>"
  apply (simp add: load_eval)
  apply (subst computeFirst.simps, simp add: pass_eval)
  apply (subst computeFirst.simps, simp add: pass_eval)
  apply (subst computeFollow.simps, simp add: pass_eval)
  done

subsection \<open>What a returning run of the parser writes\<close>

text \<open>
  Every run of the loop that returns true has written nothing to the error
  destination, and every run that returns false has written nothing or one of the two
  diagnostic lines.
\<close>

lemma parseLoop_written:
  assumes "parseLoop p input parseStack index = Some y"
  shows "\<forall>r. y = Inr r \<longrightarrow>
    (returned r \<longrightarrow> errFile r = []) \<and>
    (\<not> returned r \<longrightarrow> errFile r = [] \<or>
       (\<exists>i top'. errFile r = mismatch_diag input i top') \<or>
       (\<exists>i. errFile r = no_entry_diag input i))"
  using assms
proof (induction rule: parseLoop.raw_induct [rotated, consumes 1])
  case (1 parseLoop' p input parseStack index y)
  show ?case
  proof (cases parseStack)
    case Nil
    with 1(2) show ?thesis by auto
  next
    case (Cons top' rest)
    note stack = this
    show ?thesis
    proof (cases "length input \<le> index")
      case True
      with 1(2) stack show ?thesis by auto
    next
      case False
      note inb = this
      show ?thesis
      proof (cases "top' = ''$'' \<and> type (input ! index) = ''$''")
        case True
        with 1(2) stack inb show ?thesis by auto
      next
        case False
        note noacc = this
        show ?thesis
        proof (cases "top' = type (input ! index)")
          case True
          with 1(2) stack inb noacc have "parseLoop' p input rest (index + 1) = Some y"
            by auto
          then show ?thesis by (rule 1(1))
        next
          case False
          note noshift = this
          show ?thesis
          proof (cases "isTerminal p top'")
            case True
            with 1(2) stack inb noacc noshift show ?thesis by fastforce
          next
            case False
            note nt = this
            show ?thesis
            proof (cases "parseTable p (top', type (input ! index))")
              case None
              with 1(2) stack inb noacc noshift nt show ?thesis
                by (fastforce split: if_splits)
            next
              case (Some rule)
              with 1(2) stack inb noacc noshift nt
              have "parseLoop' p input (push_rhs (rhs rule) rest) index = Some y"
                by auto
              then show ?thesis by (rule 1(1))
            qed
          qed
        qed
      qed
    qed
  qed
qed

subsection \<open>The claims about the parse table and the parser\<close>

text \<open>
  C5: for every parser state and every key \<open>(N, t)\<close>, if the rule at position \<open>i\<close> of
  the grammar has left-hand side \<open>N\<close> and claims the lookahead \<open>t\<close>, and no rule at a
  later position does, then after \<open>buildParseTable\<close> the table maps \<open>(N, t)\<close> to that
  rule, however many earlier rules claim the same key; \<open>buildParseTable\<close> changes
  nothing but the table, so no conflict is recorded anywhere.
\<close>

theorem C5_last_claiming_rule_wins:
  assumes "i < length (grammar p)"
    and "lhs (grammar p ! i) = N" and "t |\<in>| table_entries p (grammar p ! i)"
    and "\<forall>j. i < j \<and> j < length (grammar p) \<longrightarrow>
           \<not> (lhs (grammar p ! j) = N \<and> t |\<in>| table_entries p (grammar p ! j))"
  shows "parseTable (buildParseTable p) (N, t) = Some (grammar p ! i) \<and>
    buildParseTable p = p\<lparr>parseTable := parseTable (buildParseTable p)\<rparr>"
proof -
  have "find (\<lambda>r. lhs r = N \<and> t |\<in>| table_entries p r) (rev (grammar p)) = Some (grammar p ! i)"
    using assms by (intro find_rev_last) auto
  then show ?thesis
    by (simp add: buildParseTable_def fold_build_step)
qed


theorem C5_last_claiming_rule_wins_witness:
  "''a'' |\<in>| table_entries
      (computeFollow (computeFirst (loadGrammar [''S -> a b'', ''S -> a c''] new_parser)))
      \<lparr>lhs = ''S'', rhs = [''a'', ''b'']\<rparr> \<and>
   ''a'' |\<in>| table_entries
      (computeFollow (computeFirst (loadGrammar [''S -> a b'', ''S -> a c''] new_parser)))
      \<lparr>lhs = ''S'', rhs = [''a'', ''c'']\<rparr> \<and>
   parseTable (buildParseTable
      (computeFollow (computeFirst (loadGrammar [''S -> a b'', ''S -> a c''] new_parser))))
      (''S'', ''a'') = Some \<lparr>lhs = ''S'', rhs = [''a'', ''c'']\<rparr>"
proof -
  let ?p = "computeFollow (computeFirst (loadGrammar [''S -> a b'', ''S -> a c''] new_parser))"
  have g: "grammar ?p =
      [\<lparr>lhs = ''S'', rhs = [''a'', ''b'']\<rparr>, \<lparr>lhs = ''S'', rhs = [''a'', ''c'']\<rparr>]"
    by (simp add: follow_G2)
  have e: "''a'' |\<in>| table_entries ?p \<lparr>lhs = ''S'', rhs = [''a'', ''b'']\<rparr>"
    "''a'' |\<in>| table_entries ?p \<lparr>lhs = ''S'', rhs = [''a'', ''c'']\<rparr>"
    by (simp_all add: follow_G2 table_entries_def computeFirstOf_def isTerminal_def)
  have 1: "1 < length (grammar ?p)" and 2: "lhs (grammar ?p ! 1) = ''S''"
    and 3: "''a'' |\<in>| table_entries ?p (grammar ?p ! 1)"
    and 4: "\<forall>j. 1 < j \<and> j < length (grammar ?p) \<longrightarrow>
           \<not> (lhs (grammar ?p ! j) = ''S'' \<and> ''a'' |\<in>| table_entries ?p (grammar ?p ! j))"
    using e by (simp_all add: g)
  from C5_last_claiming_rule_wins [OF 1 2 3 4] e show ?thesis
    by (simp add: g)
qed

text \<open>
  C1, as the specification states it, fails: for the grammar \<^verbatim>\<open>S -> a\<close> and the one
  token \<^verbatim>\<open>1 b b\<close> the text written to the error destination is not the line
  \<^verbatim>\<open>Syntax error at line 1: expected 'a' but found 'b'\<close>.
\<close>

theorem C1_expected_a_counterexample:
  "map_option (map_sum id errFile)
     (main [''S -> a''] [\<lparr>line = 1, type = ''b'', value = ''b''\<rparr>]) \<noteq>
   Some (Inr ''Syntax error at line 1: expected 'a' but found 'b'\<newline>'')"
  by (simp add: main_G1_b)

text \<open>
  C1, amended: for the grammar \<^verbatim>\<open>S -> a\<close> and the one token \<^verbatim>\<open>1 b b\<close>, \<open>parseTokens\<close>
  returns false and writes the line \<^verbatim>\<open>Syntax error at line 1: unexpected token 'b'\<close> to
  the error destination (the stack top is the nonterminal \<open>S\<close>, which has no table
  entry for \<open>b\<close>).
\<close>

theorem C1_unexpected_token_b:
  "main [''S -> a''] [\<lparr>line = 1, type = ''b'', value = ''b''\<rparr>] =
   Some (Inr \<lparr>returned = False,
     errFile = ''Syntax error at line 1: unexpected token 'b'\<newline>'',
     cout = ''NO\<newline>''\<rparr>)"
proof -
  let ?p = "analyse [''S -> a'']"
  have start: "startSymbol ?p = ''S''"
    by (simp add: analyse_G1)
  have not_terminal: "\<not> isTerminal ?p ''S''"
    by (simp add: analyse_G1 isTerminal_def)
  have no_entry: "parseTable ?p (''S'', ''b'') = None"
    by (simp add: analyse_G1)
  show ?thesis
    unfolding main_def parseTokens_def start
    by (subst parseLoop.simps) (simp add: not_terminal no_entry diag_eval)
qed

text \<open>
  C3 at the failing input: for the grammar \<^verbatim>\<open>S -> epsilon\<close> the start symbol \<open>S\<close>
  stands on no right-hand side, so \<open>computeFollow\<close> never stores a FOLLOW set for it:
  the stored set that \<open>buildParseTable\<close> reads for the rule does not contain \<open>$\<close>,
  although \<open>computeFollowOf\<close> of the start symbol yields \<open>$\<close>, and the table gets no
  entry for \<open>S\<close> under \<open>$\<close>.
\<close>

theorem C3_follow_of_start_symbol_not_stored:
  "''$'' |\<notin>| followSet (computeFollow (computeFirst (loadGrammar [''S -> epsilon''] new_parser)))
      (startSymbol (computeFollow (computeFirst (loadGrammar [''S -> epsilon''] new_parser)))) \<and>
   computeFollowOf (computeFollow (computeFirst (loadGrammar [''S -> epsilon''] new_parser)))
      (startSymbol (computeFollow (computeFirst (loadGrammar [''S -> epsilon''] new_parser))))
     = {|''$''|} \<and>
   parseTable (analyse [''S -> epsilon'']) (''S'', ''$'') = None"
proof -
  let ?p = "computeFollow (computeFirst (loadGrammar [''S -> epsilon''] new_parser))"
  have start: "startSymbol ?p = ''S''"
    by (simp add: follow_G5)
  have stored: "followSet ?p ''S'' = {||}"
    by (simp add: follow_G5)
  have computed: "computeFollowOf ?p ''S'' = {|''$''|}"
    by (simp add: follow_G5 pass_eval)
  have table: "parseTable (analyse [''S -> epsilon'']) (''S'', ''$'') = None"
    by (simp add: analyse_def follow_G5 table_eval)
  from stored computed table show ?thesis
    by (simp add: start)
qed

text \<open>
  The no-entry branch of the loop: unless it is taken at the first token with a
  negative line or the literal \<^verbatim>\<open>$\<close> (the read before the vector), the run returns
  false with the no-entry diagnostic.  On every token stream whose tokens have a line
  from 0 upwards and a literal other than \<^verbatim>\<open>$\<close>, that diagnostic is the one the
  specification words: the two tests of the code recognise the appended token
  \<^verbatim>\<open>{ -1, "$", "$" }\<close> by its own field values.
\<close>

lemma no_entry_diag_as_claimed:
  assumes "\<forall>tok \<in> set tokens. 0 \<le> line tok \<and> value tok \<noteq> ''$''"
    and "index \<le> length tokens"
  shows "no_entry_diag (tokens @ [\<lparr>line = - 1, type = ''$'', value = ''$''\<rparr>]) index =
    no_entry_diag_claimed (tokens @ [\<lparr>line = - 1, type = ''$'', value = ''$''\<rparr>]) index"
proof (cases "index = length tokens")
  case True
  then show ?thesis
    by (simp add: no_entry_diag_def no_entry_diag_claimed_def Let_def)
next
  case False
  with assms(2) have i: "index < length tokens" by simp
  then have "tokens ! index \<in> set tokens" by simp
  with assms(1) have "0 \<le> line (tokens ! index)" "value (tokens ! index) \<noteq> ''$''"
    by auto
  with i show ?thesis
    by (simp add: no_entry_diag_def no_entry_diag_claimed_def Let_def nth_append)
qed

lemma parseLoop_no_entry:
  assumes "index < length input"
    and "0 < index \<or> (0 \<le> line (input ! index) \<and> value (input ! index) \<noteq> ''$'')"
    and "\<not> (top' = ''$'' \<and> type (input ! index) = ''$'')"
    and "top' \<noteq> type (input ! index)"
    and "\<not> isTerminal p top'"
    and "parseTable p (top', type (input ! index)) = None"
  shows "parseLoop p input (top' # rest) index =
    Some (Inr \<lparr>returned = False, errFile = no_entry_diag input index, cout = ''NO\<newline>''\<rparr>)"
  using assms by (subst parseLoop.simps) auto

text \<open>
  C6 at the failing input: for the grammar \<^verbatim>\<open>S -> id A\<close>, \<^verbatim>\<open>A -> num\<close> and the tokens
  \<^verbatim>\<open>1 id x\<close>, \<^verbatim>\<open>2 id $\<close> (an identifier spelled \<^verbatim>\<open>$\<close>) the no-entry case is
  reached at the second token, which is not the appended end-of-input token.  The
  diagnostic should take both line and literal from that token,
  \<^verbatim>\<open>Syntax error at line 2: unexpected token '$'\<close>; the code takes the line from it
  and the literal from the previous token, because the test
  \<^verbatim>\<open>input[index].value == "$"\<close> mistakes the literal for the end marker.
\<close>

theorem C6_identifier_named_dollar:
  "main [''S -> id A'', ''A -> num'']
     [\<lparr>line = 1, type = ''id'', value = ''x''\<rparr>, \<lparr>line = 2, type = ''id'', value = ''$''\<rparr>] =
   Some (Inr \<lparr>returned = False,
     errFile = ''Syntax error at line 2: unexpected token 'x'\<newline>'',
     cout = ''NO\<newline>''\<rparr>) \<and>
   no_entry_diag_claimed
     [\<lparr>line = 1, type = ''id'', value = ''x''\<rparr>, \<lparr>line = 2, type = ''id'', value = ''$''\<rparr>,
      \<lparr>line = - 1, type = ''$'', value = ''$''\<rparr>] 1 =
     ''Syntax error at line 2: unexpected token '$'\<newline>''"
proof -
  have run: "main [''S -> id A'', ''A -> num'']
     [\<lparr>line = 1, type = ''id'', value = ''x''\<rparr>, \<lparr>line = 2, type = ''id'', value = ''$''\<rparr>] =
   Some (Inr \<lparr>returned = False,
     errFile = ''Syntax error at line 2: unexpected token 'x'\<newline>'',
     cout = ''NO\<newline>''\<rparr>)"
    unfolding main_def parseTokens_def
    apply (subst parseLoop.simps, simp add: analyse_G4 parse_eval)
    apply (subst parseLoop.simps, simp add: analyse_G4 parse_eval)
    apply (subst parseLoop.simps, simp add: analyse_G4 parse_eval)
    done
  have claimed: "no_entry_diag_claimed
     [\<lparr>line = 1, type = ''id'', value = ''x''\<rparr>, \<lparr>line = 2, type = ''id'', value = ''$''\<rparr>,
      \<lparr>line = - 1, type = ''$'', value = ''$''\<rparr>] 1 =
     ''Syntax error at line 2: unexpected token '$'\<newline>''"
    by (simp add: no_entry_diag_claimed_def diag_eval)
  from run claimed show ?thesis by (rule conjI)
qed

text \<open>
  C7 at the failing input: for the grammar \<^verbatim>\<open>S -> a\<close>, whose start symbol cannot derive
  epsilon, and the empty token vector, the no-entry branch is taken at \<open>index = 0\<close> on
  the appended end-of-input token and reads \<^verbatim>\<open>input[index - 1]\<close>, outside the vector.
\<close>

theorem C7_empty_stream_reads_before_start:
  "main [''S -> a''] [] = Some (Inl OutOfRange)"
proof -
  let ?p = "analyse [''S -> a'']"
  have start: "startSymbol ?p = ''S''"
    by (simp add: analyse_G1)
  have not_terminal: "\<not> isTerminal ?p ''S''"
    by (simp add: analyse_G1 isTerminal_def)
  have no_entry: "parseTable ?p (''S'', ''$'') = None"
    by (simp add: analyse_G1)
  show ?thesis
    unfolding main_def parseTokens_def start
    by (subst parseLoop.simps) (simp add: not_terminal no_entry)
qed

text \<open>
  C8 at the failing input: for the grammar \<^verbatim>\<open>S -> a\<close>, \<^verbatim>\<open>$ -> b\<close> and the tokens
  \<^verbatim>\<open>1 a a\<close>, \<^verbatim>\<open>1 b b\<close> the loop expands \<open>S\<close>, shifts \<open>a\<close>, expands the bottom
  marker by the second rule and shifts \<open>b\<close>; the stack is then empty, and
  \<open>parseTokens\<close> returns false having written nothing to the error destination (nor
  to the standard output).
\<close>

theorem C8_stack_exhausted_rejects_silently:
  "main [''S -> a'', ''$ -> b'']
     [\<lparr>line = 1, type = ''a'', value = ''a''\<rparr>, \<lparr>line = 1, type = ''b'', value = ''b''\<rparr>] =
   Some (Inr \<lparr>returned = False, errFile = [], cout = []\<rparr>)"
  unfolding main_def parseTokens_def
  apply (subst parseLoop.simps, simp add: analyse_G3 parse_eval)
  apply (subst parseLoop.simps, simp add: analyse_G3 parse_eval)
  apply (subst parseLoop.simps, simp add: analyse_G3 parse_eval)
  apply (subst parseLoop.simps, simp add: analyse_G3 parse_eval)
  apply (subst parseLoop.simps, simp add: analyse_G3 parse_eval)
  done

end
